theory Spec2Isabelle
  imports Main "HOL-Library.Sublist"
begin

section \<open>The password-manager probe of \<^verbatim>\<open>nxc/modules/enum_pass_manager.py\<close>\<close>

text \<open>
  The module probes one authenticated SMB session. It lists directories of the share
  \<^verbatim>\<open>C$\<close> to find installation paths (with wildcards in the path segments) and lists the
  share \<^verbatim>\<open>IPC$\<close> once to find named pipes of running password managers.

  Python strings are modelled as \<open>string\<close>, read as sequences of code points below 256.
  A backslash is written \<open>CHR 0x5C\<close>. The host is taken to be a POSIX system, so
  \<^verbatim>\<open>os.path.join\<close> is \<^verbatim>\<open>posixpath.join\<close>. The glob matcher \<^verbatim>\<open>fnmatch.fnmatch\<close> of the
  Python library is a parameter \<open>fnmatch\<close> of every function that reaches it
  (\<open>fnmatch name pattern\<close>), so that the general theorems hold for every matcher.
\<close>

subsection \<open>Python values, the remote session and the observable events\<close>

text \<open>\<^verbatim>\<open>_recursive_match\<close> returns a list in its base case and a boolean otherwise.\<close>

datatype pyval = PyBool bool | PyList "string list"

fun truthy :: "pyval \<Rightarrow> bool" where
  "truthy (PyBool b) = b"
| "truthy (PyList xs) = (xs \<noteq> [])"

text \<open>An entry of a listing, with the two accessors the module calls.\<close>

record shared_file =
  get_shortname :: string
  get_longname :: string

text \<open>
  \<^verbatim>\<open>connection.conn.listPath(share, path)\<close>: \<open>Inr\<close> the entries, or \<open>Inl\<close> the text of
  the exception it raises. The remote state does not change during a run.
\<close>

type_synonym remote = "string \<Rightarrow> string \<Rightarrow> string + shared_file list"

record connection =
  host :: string
  hostname :: string
  domain :: string
  kerberos :: bool
  conn :: remote

text \<open>
  What a run does to the outside world, in order: listing requests sent over the session
  and lines written to \<^verbatim>\<open>context.log\<close>.
\<close>

datatype event =
    ListPath string string
  | Info string
  | Highlight string
  | Debug string
  | Fail string

record product =
  paths :: "string list"
  pipes :: "string list"

text \<open>A Python dict iterates in insertion order: an association list.\<close>

type_synonym catalog = "(string \<times> product) list"

subsection \<open>Library functions of Python\<close>

text \<open>\<^verbatim>\<open>path.split(r"\\")\<close>: the separator is two backslashes, found left to right.\<close>

fun split :: "string \<Rightarrow> string list" where
  "split (c # d # cs) =
     (if c = CHR 0x5C \<and> d = CHR 0x5C then [] # split cs
      else (case split (d # cs) of
              w # ws \<Rightarrow> (c # w) # ws
            | [] \<Rightarrow> [[c]]))"
| "split cs = [cs]"

text \<open>\<^verbatim>\<open>current_path.replace("C:", "")\<close>: every occurrence is removed.\<close>

fun replace_C :: "string \<Rightarrow> string" where
  "replace_C (c # d # cs) =
     (if c = CHR ''C'' \<and> d = CHR '':'' then replace_C cs else c # replace_C (d # cs))"
| "replace_C cs = cs"

text \<open>\<^verbatim>\<open>posixpath.join(a, b)\<close>.\<close>

definition join :: "string \<Rightarrow> string \<Rightarrow> string" where
  "join a b =
     (if prefix ''/'' b then b
      else if a = [] \<or> suffix ''/'' a then a @ b
      else a @ ''/'' @ b)"

text \<open>\<^verbatim>\<open>str.lower()\<close> on code points below 256: A-Z and the upper-case Latin-1 letters.\<close>

definition lower_char :: "char \<Rightarrow> char" where
  "lower_char c =
     (let n = (of_char c :: nat) in
      if (65 \<le> n \<and> n \<le> 90) \<or> (192 \<le> n \<and> n \<le> 222 \<and> n \<noteq> 215)
      then char_of (n + 32) else c)"

definition lower :: "string \<Rightarrow> string" where
  "lower s = map lower_char s"

text \<open>\<^verbatim>\<open>sub in s\<close> on strings.\<close>

fun contains :: "string \<Rightarrow> string \<Rightarrow> bool" where
  "contains sub [] = (sub = [])"
| "contains sub (c # cs) = (prefix sub (c # cs) \<or> contains sub cs)"

subsection \<open>The catalog of \<^verbatim>\<open>on_login\<close>\<close>

abbreviation sep :: string where
  "sep \<equiv> [CHR 0x5C, CHR 0x5C]"

definition password_managers :: catalog where
  "password_managers =
     [(''LastPass'',
        \<lparr>paths = [''C:'' @ sep @ ''Program Files (x86)'' @ sep @ ''LastPass'',
                 ''C:'' @ sep @ ''ProgramData'' @ sep @ ''LastPass''],
         pipes = [''LASTPASS_'']\<rparr>),
      (''Dashlane'',
        \<lparr>paths = [''C:'' @ sep @ ''Program Files (x86)'' @ sep @ ''Dashlane'',
                 ''C:'' @ sep @ ''ProgramData'' @ sep @ ''Dashlane''],
         pipes = []\<rparr>),
      (''1Password'',
        \<lparr>paths = [''C:'' @ sep @ ''Users'' @ sep @ ''*'' @ sep @ ''AppData'' @ sep @ ''*''
                   @ sep @ ''1Password'',
                 ''C:'' @ sep @ ''Program Files'' @ sep @ ''1Password'',
                 ''C:'' @ sep @ ''Program Files (x86)'' @ sep @ ''1Password''],
         pipes = []\<rparr>),
      (''Bitwarden'',
        \<lparr>paths = [''C:'' @ sep @ ''Program Files'' @ sep @ ''Bitwarden'',
                 ''C:'' @ sep @ ''Users'' @ sep @ ''*'' @ sep @ ''AppData'' @ sep @ ''Local''
                   @ sep @ ''Bitwarden''],
         pipes = []\<rparr>),
      (''KeePass'',
        \<lparr>paths = [''C:'' @ sep @ ''Program Files'' @ sep @ ''KeePass*'',
                 ''C:'' @ sep @ ''Program Files (x86)'' @ sep @ ''KeePass*''],
         pipes = []\<rparr>),
      (''EnPass'',
        \<lparr>paths = [''C:'' @ sep @ ''Program Files'' @ sep @ ''Enpass'',
                 ''C:'' @ sep @ ''Program Files (x86)'' @ sep @ ''Enpass''],
         pipes = [''-enpass-'']\<rparr>)]"

subsection \<open>\<^verbatim>\<open>_get_target\<close>\<close>

definition get_target :: "connection \<Rightarrow> string" where
  "get_target connection =
     (if \<not> kerberos connection then host connection
      else hostname connection @ ''.'' @ domain connection)"

subsection \<open>\<^verbatim>\<open>_recursive_match\<close>\<close>

text \<open>
  What one call of \<^verbatim>\<open>_recursive_match\<close> amounts to: the value it returns, the events it
  causes, and the number of nested invocations of itself it stacks up below this call.
\<close>

record outcome =
  returned :: pyval
  events :: "event list"
  depth :: nat

text \<open>The path sent to \<^verbatim>\<open>listPath\<close> for a directory.\<close>

definition list_arg :: "string \<Rightarrow> string" where
  "list_arg current_path = replace_C current_path @ ''/*''"

text \<open>The list comprehension \<^verbatim>\<open>matched_dirs\<close>.\<close>

definition matched_dirs ::
  "(string \<Rightarrow> string \<Rightarrow> bool) \<Rightarrow> string \<Rightarrow> string \<Rightarrow> shared_file list \<Rightarrow> string list" where
  "matched_dirs fnmatch current_path next_path contents =
     map (\<lambda>item. join current_path (get_shortname item))
         (filter (\<lambda>item. fnmatch (get_shortname item) next_path) contents)"

text \<open>
  \<open>recursive_match\<close> is the method; \<open>match_loop\<close> is its final \<^verbatim>\<open>for\<close> loop over
  \<^verbatim>\<open>matched_dirs\<close>, which returns \<^verbatim>\<open>True\<close> at the first truthy recursive call and
  \<^verbatim>\<open>False\<close> when the list is used up. A failed listing is caught and gives \<^verbatim>\<open>False\<close>.
\<close>

fun recursive_match ::
    "(string \<Rightarrow> string \<Rightarrow> bool) \<Rightarrow> connection \<Rightarrow> string \<Rightarrow> string list \<Rightarrow> outcome"
  and match_loop ::
    "(string \<Rightarrow> string \<Rightarrow> bool) \<Rightarrow> connection \<Rightarrow> string list \<Rightarrow> string list \<Rightarrow> outcome"
where
  "recursive_match fnmatch connection current_path [] =
     \<lparr>returned = PyList [current_path], events = [], depth = 0\<rparr>"
| "recursive_match fnmatch connection current_path (next_path # rest) =
     (case conn connection ''C$'' (list_arg current_path) of
        Inl e \<Rightarrow>
          \<lparr>returned = PyBool False,
           events = [ListPath ''C$'' (list_arg current_path)], depth = 0\<rparr>
      | Inr contents \<Rightarrow>
          (let r = match_loop fnmatch connection
                     (matched_dirs fnmatch current_path next_path contents) rest
           in r\<lparr>events := ListPath ''C$'' (list_arg current_path) # events r\<rparr>))"
| "match_loop fnmatch connection [] rest =
     \<lparr>returned = PyBool False, events = [], depth = 0\<rparr>"
| "match_loop fnmatch connection (matched_dir # others) rest =
     (let r = recursive_match fnmatch connection matched_dir rest in
      if \<not> truthy (returned r) then
        (let l = match_loop fnmatch connection others rest
         in l\<lparr>events := events r @ events l, depth := max (Suc (depth r)) (depth l)\<rparr>)
      else \<lparr>returned = PyBool True, events = events r, depth = Suc (depth r)\<rparr>)"

subsection \<open>\<^verbatim>\<open>_detect_password_managers\<close>\<close>

text \<open>
  The inner loop over the path patterns of one product. The \<^verbatim>\<open>except\<close> branch is the
  \<^verbatim>\<open>IndexError\<close> of \<^verbatim>\<open>path_segments[0]\<close>; \<^verbatim>\<open>_recursive_match\<close> itself raises nothing,
  since it catches the failure of \<^verbatim>\<open>listPath\<close>.
\<close>

fun try_paths ::
  "(string \<Rightarrow> string \<Rightarrow> bool) \<Rightarrow> connection \<Rightarrow> string \<Rightarrow> string list \<Rightarrow> event list" where
  "try_paths fnmatch connection name [] = []"
| "try_paths fnmatch connection name (path # rest) =
     (case split path of
        [] \<Rightarrow>
          Debug (''Failed to check path '' @ path @ '': list index out of range'')
            # try_paths fnmatch connection name rest
      | base_path # remaining_paths \<Rightarrow>
          (let r = recursive_match fnmatch connection base_path remaining_paths in
           if truthy (returned r)
           then events r @ [Highlight (''Password manager installed: '' @ name)]
           else events r @ try_paths fnmatch connection name rest))"

fun products_loop ::
  "(string \<Rightarrow> string \<Rightarrow> bool) \<Rightarrow> connection \<Rightarrow> catalog \<Rightarrow> event list" where
  "products_loop fnmatch connection [] = []"
| "products_loop fnmatch connection ((name, product) # rest) =
     try_paths fnmatch connection name (paths product)
       @ products_loop fnmatch connection rest"

definition detect_password_managers ::
  "(string \<Rightarrow> string \<Rightarrow> bool) \<Rightarrow> connection \<Rightarrow> catalog \<Rightarrow> event list" where
  "detect_password_managers fnmatch connection password_managers' =
     Info (''Checking for known password manager file paths on '' @ host connection @ ''...'')
       # products_loop fnmatch connection password_managers'"

subsection \<open>\<^verbatim>\<open>_detect_running_processes\<close>\<close>

text \<open>The loop over the pipes of one product, left by \<^verbatim>\<open>break\<close> at the first hit.\<close>

fun pipes_loop :: "string \<Rightarrow> string list \<Rightarrow> string \<Rightarrow> event list" where
  "pipes_loop name [] fl = []"
| "pipes_loop name (pipe # rest) fl =
     (if contains (lower pipe) (lower fl)
      then [Highlight (''Password manager RUNNING: '' @ name)]
      else pipes_loop name rest fl)"

text \<open>The loop over the catalog, for one listed entry.\<close>

fun running_loop :: "catalog \<Rightarrow> string \<Rightarrow> event list" where
  "running_loop [] fl = []"
| "running_loop ((name, product) # rest) fl =
     pipes_loop name (pipes product) fl @ running_loop rest fl"

text \<open>The outer loop over the listed entries.\<close>

fun entries_loop :: "catalog \<Rightarrow> shared_file list \<Rightarrow> event list" where
  "entries_loop password_managers' [] = []"
| "entries_loop password_managers' (f # rest) =
     running_loop password_managers' (get_longname f) @ entries_loop password_managers' rest"

definition detect_running_processes :: "connection \<Rightarrow> catalog \<Rightarrow> event list" where
  "detect_running_processes connection password_managers' =
     Info (''Detecting running processes on '' @ host connection
             @ '' by enumerating pipes...'')
       # ListPath ''IPC$'' [CHR 0x5C, CHR ''*'']
       # (case conn connection ''IPC$'' [CHR 0x5C, CHR ''*''] of
            Inl e \<Rightarrow> [Fail e]
          | Inr fs \<Rightarrow> entries_loop password_managers' fs)"

subsection \<open>\<^verbatim>\<open>on_login\<close> and \<^verbatim>\<open>dump_results\<close>\<close>

definition on_login :: "(string \<Rightarrow> string \<Rightarrow> bool) \<Rightarrow> connection \<Rightarrow> event list" where
  "on_login fnmatch connection =
     Info (''Analyzing target: '' @ get_target connection)
       # detect_running_processes connection password_managers
       @ detect_password_managers fnmatch connection password_managers"

text \<open>
  \<^verbatim>\<open>dump_results(results, context)\<close>: \<open>results\<close> is a dict from manager to a dict that may
  hold the keys \<^verbatim>\<open>paths\<close> and \<^verbatim>\<open>pipes\<close>. No method of the module calls it.
\<close>

definition has_items :: "(string \<rightharpoonup> string list) \<Rightarrow> string \<Rightarrow> bool" where
  "has_items data key = (case data key of None \<Rightarrow> False | Some xs \<Rightarrow> length xs > 0)"

definition dump_line :: "string \<Rightarrow> (string \<rightharpoonup> string list) \<Rightarrow> event" where
  "dump_line manager data =
     Highlight (''Password manager detected: '' @ manager
                  @ (if has_items data ''paths'' then '' (Paths detected)'' else '''')
                  @ (if has_items data ''pipes'' then '' - RUNNING!'' else ''''))"

definition dump_results :: "(string \<times> (string \<rightharpoonup> string list)) list \<Rightarrow> event list" where
  "dump_results results =
     (if results = [] then [Highlight ''No password managers detected.'']
      else map (\<lambda>(manager, data). dump_line manager data) results)"

subsection \<open>The frontier of the specification\<close>

text \<open>
  The specification describes path resolution level by level: a frontier of directories,
  starting with the root, is replaced for each segment by the matched children of all its
  members; a member whose listing fails has no children. \<open>expand\<close> gives the matched
  children of one directory, \<open>frontier\<close> the frontier after a list of segments.
\<close>

definition expand ::
  "(string \<Rightarrow> string \<Rightarrow> bool) \<Rightarrow> connection \<Rightarrow> string \<Rightarrow> string \<Rightarrow> string list" where
  "expand fnmatch connection segment dir =
     (case conn connection ''C$'' (list_arg dir) of
        Inl e \<Rightarrow> []
      | Inr contents \<Rightarrow> matched_dirs fnmatch dir segment contents)"

fun frontier ::
  "(string \<Rightarrow> string \<Rightarrow> bool) \<Rightarrow> connection \<Rightarrow> string list \<Rightarrow> string list \<Rightarrow> string list" where
  "frontier fnmatch connection dirs [] = dirs"
| "frontier fnmatch connection dirs (segment # segments) =
     frontier fnmatch connection (concat (map (expand fnmatch connection segment) dirs)) segments"


subsection \<open>Existing paths, as the specification means them\<close>

text \<open>
  The specification speaks of a concrete path that exists below the root of the file share
  and that the pattern matches. Here a path below the share root is the list of its names,
  and the name of a listed entry is its long name (the short name is its 8.3 alias).
  \<open>dir_request\<close> is the listing request for the directory with the given names.
\<close>

definition dir_request :: "string list \<Rightarrow> string" where
  "dir_request dir = concat (map (\<lambda>n. ''/'' @ n) dir) @ ''/*''"

text \<open>
  \<open>path_exists connection dir names\<close>: going down from the directory \<open>dir\<close> along \<open>names\<close>,
  every directory on the way can be listed and shows the next name. The share root is \<open>[]\<close>.
\<close>

fun path_exists :: "connection \<Rightarrow> string list \<Rightarrow> string list \<Rightarrow> bool" where
  "path_exists connection dir [] = True"
| "path_exists connection dir (n # ns) =
     (case conn connection ''C$'' (dir_request dir) of
        Inl e \<Rightarrow> False
      | Inr contents \<Rightarrow>
          n \<in> set (map get_longname contents) \<and> path_exists connection (dir @ [n]) ns)"

text \<open>
  A pattern, given by its root and its segments, matches an existing concrete path reachable
  from the share root: its root is the root of the share, written \<^verbatim>\<open>C:\<close>, and some existing
  path has one name for each segment, each name matching its segment.
\<close>

definition matches_existing_path ::
  "(string \<Rightarrow> string \<Rightarrow> bool) \<Rightarrow> connection \<Rightarrow> string \<Rightarrow> string list \<Rightarrow> bool" where
  "matches_existing_path fnmatch connection root segments \<longleftrightarrow>
     root = ''C:''
     \<and> (\<exists>names. list_all2 fnmatch names segments \<and> path_exists connection [] names)"

text \<open>
  An entry as a Windows share lists it when no 8.3 alias differs from the name: the name is
  not empty and has neither \<^verbatim>\<open>/\<close> nor \<^verbatim>\<open>:\<close> in it, and the short name is the name.
\<close>

definition plain_entry :: "shared_file \<Rightarrow> bool" where
  "plain_entry item \<longleftrightarrow>
     get_shortname item = get_longname item
     \<and> get_longname item \<noteq> []
     \<and> CHR ''/'' \<notin> set (get_longname item)
     \<and> CHR '':'' \<notin> set (get_longname item)"

text \<open>The path that the resolver builds for the directory with the given names.\<close>

definition local_path :: "string list \<Rightarrow> string" where
  "local_path dir = ''C:'' @ concat (map (\<lambda>n. ''/'' @ n) dir)"

subsection \<open>A sample matcher and sample sessions\<close>

text \<open>
  \<open>glob\<close> is \<^verbatim>\<open>fnmatch.fnmatch\<close> on a POSIX host (case-sensitive) for patterns made of
  literal characters, \<^verbatim>\<open>*\<close> and \<^verbatim>\<open>?\<close>, which is all the catalog uses. It instantiates the
  parameter \<open>fnmatch\<close> where a theorem is evaluated on a concrete run.
\<close>

fun wild :: "string \<Rightarrow> string \<Rightarrow> bool" where
  "wild [] [] = True"
| "wild [] (c # cs) = False"
| "wild (p # ps) [] = (p = CHR ''*'' \<and> wild ps [])"
| "wild (p # ps) (c # cs) =
     (if p = CHR ''*'' then wild ps (c # cs) \<or> wild (p # ps) cs
      else (p = CHR ''?'' \<or> p = c) \<and> wild ps cs)"

definition glob :: "string \<Rightarrow> string \<Rightarrow> bool" where
  "glob name pat = wild pat name"

definition entry :: "string \<Rightarrow> shared_file" where
  "entry name = \<lparr>get_shortname = name, get_longname = name\<rparr>"

definition listing ::
  "(string \<times> string list) list \<Rightarrow> string \<Rightarrow> string + shared_file list" where
  "listing table path =
     (case map_of table path of
        None \<Rightarrow> Inl ''STATUS_OBJECT_PATH_NOT_FOUND''
      | Some names \<Rightarrow> Inr (map entry names))"

text \<open>
  A workstation with KeePass and Bitwarden installed and two LastPass pipes open; the
  profile directory of \<^verbatim>\<open>alice\<close> cannot be listed.
\<close>

definition office_host :: connection where
  "office_host =
     \<lparr>host = ''10.0.0.5'', hostname = ''office'', domain = ''corp.local'', kerberos = False,
      conn = (\<lambda>share path.
        if share = ''C$'' then
          listing [(''/*'', [''Program Files'', ''Users'']),
                   (''/Program Files/*'', [''KeePass2'', ''Other'']),
                   (''/Users/*'', [''alice'', ''bob'']),
                   (''/Users/bob/*'', [''AppData'']),
                   (''/Users/bob/AppData/*'', [''Local'']),
                   (''/Users/bob/AppData/Local/*'', [''Bitwarden''])] path
        else if share = ''IPC$'' then
          listing [([CHR 0x5C, CHR ''*''], [''lsass'', ''lastpass_123'', ''LastPass_456''])] path
        else Inl ''STATUS_BAD_NETWORK_NAME'')\<rparr>"

text \<open>The same workstation when the listing of \<^verbatim>\<open>IPC$\<close> is refused.\<close>

definition no_ipc_host :: connection where
  "no_ipc_host =
     office_host\<lparr>conn := (\<lambda>share path.
        if share = ''IPC$'' then Inl ''STATUS_ACCESS_DENIED'' else conn office_host share path)\<rparr>"

text \<open>A machine on which every listing succeeds and is empty.\<close>

definition bare_host :: connection where
  "bare_host =
     \<lparr>host = ''10.0.0.9'', hostname = ''bare'', domain = ''corp.local'', kerberos = False,
      conn = (\<lambda>share path. Inr [])\<rparr>"

text \<open>
  A machine that lists \<^verbatim>\<open>Program Files\<close> and \<^verbatim>\<open>KeePass2\<close> with their 8.3 aliases as short
  names.
\<close>

definition dos_host :: connection where
  "dos_host =
     \<lparr>host = ''10.0.0.7'', hostname = ''dos'', domain = ''corp.local'', kerberos = False,
      conn = (\<lambda>share path.
        if share = ''C$'' \<and> path = ''/*'' then
          Inr [\<lparr>get_shortname = ''PROGRA~1'', get_longname = ''Program Files''\<rparr>]
        else if share = ''C$'' \<and> (path = ''/Program Files/*'' \<or> path = ''/PROGRA~1/*'') then
          Inr [\<lparr>get_shortname = ''KEEPAS~1'', get_longname = ''KeePass2''\<rparr>,
               \<lparr>get_shortname = ''Other'', get_longname = ''Other''\<rparr>]
        else Inl ''STATUS_OBJECT_PATH_NOT_FOUND'')\<rparr>"

section \<open>Properties\<close>

subsection \<open>Library functions\<close>

lemma split_nonempty: "split p \<noteq> []"
  by (induction p rule: split.induct) (auto split: list.splits)

lemma split_single: "split p = [b] \<Longrightarrow> b = p"
proof (induction p arbitrary: b rule: split.induct)
  case (1 c d cs)
  show ?case
  proof (cases "c = CHR 0x5C \<and> d = CHR 0x5C")
    case True
    with "1.prems" have "split cs = []" by simp
    then show ?thesis by (simp add: split_nonempty)
  next
    case False
    with "1.prems" obtain w where w: "split (d # cs) = [w]" and b: "b = c # w"
      by (auto simp: split_nonempty split: list.splits)
    from "1.IH"(2) [OF False w] b show ?thesis by simp
  qed
qed simp_all


subsection \<open>Resolution and the frontier\<close>

lemma frontier_Nil [simp]: "frontier fnmatch connection [] segments = []"
  by (induction segments) simp_all

lemma frontier_append_dirs:
  "frontier fnmatch connection (A @ B) segments =
     frontier fnmatch connection A segments @ frontier fnmatch connection B segments"
  by (induction segments arbitrary: A B) simp_all

lemma frontier_Cons_dirs:
  "frontier fnmatch connection (d # ds) segments =
     frontier fnmatch connection [d] segments @ frontier fnmatch connection ds segments"
  using frontier_append_dirs [of fnmatch connection "[d]" ds segments] by simp

lemma frontier_append_segments:
  "frontier fnmatch connection dirs (xs @ ys) =
     frontier fnmatch connection (frontier fnmatch connection dirs xs) ys"
  by (induction xs arbitrary: dirs) simp_all

lemma frontier_single_step:
  "frontier fnmatch connection [dir] (segment # segments) =
     frontier fnmatch connection (expand fnmatch connection segment dir) segments"
  by simp

lemma truthy_iff_frontier:
  "truthy (returned (recursive_match fnmatch connection dir segments)) \<longleftrightarrow>
     frontier fnmatch connection [dir] segments \<noteq> []"
  "truthy (returned (match_loop fnmatch connection dirs rest)) \<longleftrightarrow>
     frontier fnmatch connection dirs rest \<noteq> []"
proof (induction fnmatch connection dir segments and fnmatch connection dirs rest
       rule: recursive_match_match_loop.induct)
  case (1 fnmatch connection current_path)
  show ?case by simp
next
  case (2 fnmatch connection current_path next_path rest)
  show ?case
  proof (cases "conn connection ''C$'' (list_arg current_path)")
    case (Inl e)
    then show ?thesis by (simp add: expand_def)
  next
    case (Inr contents)
    with "2.IH" [OF Inr] show ?thesis by (simp add: expand_def Let_def)
  qed
next
  case (3 fnmatch connection rest)
  show ?case by simp
next
  case (4 fnmatch connection matched_dir others rest)
  show ?case
  proof (cases "truthy (returned (recursive_match fnmatch connection matched_dir rest))")
    case True
    with "4.IH"(1) show ?thesis
      by (subst frontier_Cons_dirs) (simp add: Let_def)
  next
    case False
    with "4.IH"(1) "4.IH"(2) [OF refl False] show ?thesis
      by (subst frontier_Cons_dirs) (simp add: Let_def)
  qed
qed

lemma returned_bool:
  "segments \<noteq> [] \<Longrightarrow> \<exists>b. returned (recursive_match fnmatch connection dir segments) = PyBool b"
  "\<exists>b. returned (match_loop fnmatch connection dirs rest) = PyBool b"
proof (induction fnmatch connection dir segments and fnmatch connection dirs rest
       rule: recursive_match_match_loop.induct)
  case (2 fnmatch connection current_path next_path rest)
  then show ?case by (cases "conn connection ''C$'' (list_arg current_path)") (auto simp: Let_def)
next
  case (4 fnmatch connection matched_dir others rest)
  then show ?case by (auto simp: Let_def)
qed auto

lemma frontier_nonempty_iff:
  "frontier fnmatch connection dirs segments \<noteq> [] \<longleftrightarrow>
     (\<exists>d\<in>set dirs. frontier fnmatch connection [d] segments \<noteq> [])"
proof (induction dirs)
  case Nil
  show ?case by simp
next
  case (Cons d ds)
  show ?case
    by (subst frontier_Cons_dirs) (simp add: Cons.IH)
qed

lemma mem_expand_iff:
  "d \<in> set (expand fnmatch connection segment dir) \<longleftrightarrow>
     (\<exists>contents n. conn connection ''C$'' (list_arg dir) = Inr contents
        \<and> n \<in> set (map get_shortname contents) \<and> fnmatch n segment \<and> d = join dir n)"
  by (cases "conn connection ''C$'' (list_arg dir)")
     (auto simp: expand_def matched_dirs_def)

lemma events_are_listings:
  "e \<in> set (events (recursive_match fnmatch connection dir segments)) \<Longrightarrow>
     \<exists>j<length segments. \<exists>p\<in>set (frontier fnmatch connection [dir] (take j segments)).
        e = ListPath ''C$'' (list_arg p)"
  "e \<in> set (events (match_loop fnmatch connection dirs rest)) \<Longrightarrow>
     \<exists>j<length rest. \<exists>p\<in>set (frontier fnmatch connection dirs (take j rest)).
        e = ListPath ''C$'' (list_arg p)"
proof (induction fnmatch connection dir segments and fnmatch connection dirs rest
       rule: recursive_match_match_loop.induct)
  case (1 fnmatch connection current_path)
  then show ?case by simp
next
  case (2 fnmatch connection current_path next_path rest)
  let ?here = "ListPath ''C$'' (list_arg current_path)"
  have first: "\<exists>j<length (next_path # rest).
      \<exists>p\<in>set (frontier fnmatch connection [current_path] (take j (next_path # rest))).
        ?here = ListPath ''C$'' (list_arg p)"
    by (rule exI [of _ 0]) simp
  show ?case
  proof (cases "conn connection ''C$'' (list_arg current_path)")
    case (Inl x)
    with "2.prems" have "e = ?here" by simp
    with first show ?thesis by simp
  next
    case (Inr contents)
    let ?m = "matched_dirs fnmatch current_path next_path contents"
    from "2.prems" Inr
    have "e = ?here \<or> e \<in> set (events (match_loop fnmatch connection ?m rest))"
      by (simp add: Let_def)
    then show ?thesis
    proof
      assume "e = ?here"
      with first show ?thesis by simp
    next
      assume "e \<in> set (events (match_loop fnmatch connection ?m rest))"
      from "2.IH" [OF Inr this] obtain j p
        where j: "j < length rest"
          and p: "p \<in> set (frontier fnmatch connection ?m (take j rest))"
          and e: "e = ListPath ''C$'' (list_arg p)"
        by blast
      from p Inr
      have "p \<in> set (frontier fnmatch connection [current_path] (take (Suc j) (next_path # rest)))"
        by (simp add: expand_def)
      with j e show ?thesis
        by (intro exI [of _ "Suc j"]) auto
    qed
  qed
next
  case (3 fnmatch connection rest)
  then show ?case by simp
next
  case (4 fnmatch connection matched_dir others rest)
  let ?r = "recursive_match fnmatch connection matched_dir rest"
  have widen_hd: "\<And>j p. p \<in> set (frontier fnmatch connection [matched_dir] (take j rest))
      \<Longrightarrow> p \<in> set (frontier fnmatch connection (matched_dir # others) (take j rest))"
    by (subst frontier_Cons_dirs) simp
  have widen_tl: "\<And>j p. p \<in> set (frontier fnmatch connection others (take j rest))
      \<Longrightarrow> p \<in> set (frontier fnmatch connection (matched_dir # others) (take j rest))"
    by (subst frontier_Cons_dirs) simp
  show ?case
  proof (cases "truthy (returned ?r)")
    case True
    with "4.prems" have "e \<in> set (events ?r)" by (simp add: Let_def)
    from "4.IH"(1) [OF this] widen_hd show ?thesis by blast
  next
    case False
    with "4.prems"
    have "e \<in> set (events ?r) \<or> e \<in> set (events (match_loop fnmatch connection others rest))"
      by (simp add: Let_def)
    then show ?thesis
    proof
      assume "e \<in> set (events ?r)"
      from "4.IH"(1) [OF this] widen_hd show ?thesis by blast
    next
      assume "e \<in> set (events (match_loop fnmatch connection others rest))"
      from "4.IH"(2) [OF refl False this] widen_tl show ?thesis by blast
    qed
  qed
qed

lemma depth_bounds:
  "depth (recursive_match fnmatch connection dir segments) \<le> length segments \<and>
     (truthy (returned (recursive_match fnmatch connection dir segments)) \<longleftrightarrow>
        depth (recursive_match fnmatch connection dir segments) = length segments)"
  "depth (match_loop fnmatch connection dirs rest) \<le> Suc (length rest) \<and>
     (truthy (returned (match_loop fnmatch connection dirs rest)) \<longleftrightarrow>
        depth (match_loop fnmatch connection dirs rest) = Suc (length rest))"
proof (induction fnmatch connection dir segments and fnmatch connection dirs rest
       rule: recursive_match_match_loop.induct)
  case (1 fnmatch connection current_path)
  show ?case by simp
next
  case (2 fnmatch connection current_path next_path rest)
  show ?case
  proof (cases "conn connection ''C$'' (list_arg current_path)")
    case (Inl x)
    then show ?thesis by simp
  next
    case (Inr contents)
    with "2.IH" [OF Inr] show ?thesis by (simp add: Let_def)
  qed
next
  case (3 fnmatch connection rest)
  show ?case by simp
next
  case (4 fnmatch connection matched_dir others rest)
  show ?case
  proof (cases "truthy (returned (recursive_match fnmatch connection matched_dir rest))")
    case True
    with "4.IH"(1) show ?thesis by (simp add: Let_def)
  next
    case False
    with "4.IH"(1) "4.IH"(2) [OF refl False] show ?thesis
      by (auto simp: Let_def)
  qed
qed

subsection \<open>The scan of the named pipes\<close>

lemma contains_iff: "contains sub s \<longleftrightarrow> (\<exists>pre post. s = pre @ sub @ post)"
proof (induction s)
  case Nil
  show ?case by auto
next
  case (Cons c cs)
  have "(\<exists>pre post. c # cs = pre @ sub @ post) \<longleftrightarrow>
        (\<exists>post. c # cs = sub @ post) \<or> (\<exists>pre post. cs = pre @ sub @ post)"
    by (auto simp: Cons_eq_append_conv)
  then show ?case by (simp add: Cons.IH prefix_def)
qed

lemma mem_pipes_loop:
  "e \<in> set (pipes_loop name ps fl) \<longleftrightarrow>
     e = Highlight (''Password manager RUNNING: '' @ name)
     \<and> (\<exists>pipe\<in>set ps. contains (lower pipe) (lower fl))"
  by (induction ps) auto

lemma mem_running_loop:
  "e \<in> set (running_loop pm fl) \<longleftrightarrow>
     (\<exists>name product. (name, product) \<in> set pm
        \<and> e = Highlight (''Password manager RUNNING: '' @ name)
        \<and> (\<exists>pipe\<in>set (pipes product). contains (lower pipe) (lower fl)))"
  by (induction pm fl rule: running_loop.induct) (auto simp: mem_pipes_loop)

lemma mem_entries_loop:
  "e \<in> set (entries_loop pm fs) \<longleftrightarrow>
     (\<exists>f\<in>set fs. e \<in> set (running_loop pm (get_longname f)))"
  by (induction fs) auto





subsection \<open>The loops over the patterns and the products\<close>

lemma same_share_recursive_match:
  "\<forall>p. conn connection ''C$'' p = conn c' ''C$'' p \<Longrightarrow>
     recursive_match fnmatch connection dir segments = recursive_match fnmatch c' dir segments"
  "\<forall>p. conn connection ''C$'' p = conn c' ''C$'' p \<Longrightarrow>
     match_loop fnmatch connection dirs rest = match_loop fnmatch c' dirs rest"
proof (induction fnmatch connection dir segments and fnmatch connection dirs rest
       rule: recursive_match_match_loop.induct)
  case (1 fnmatch connection current_path)
  show ?case by simp
next
  case (2 fnmatch connection current_path next_path rest)
  from "2.prems"
  have same: "conn c' ''C$'' (list_arg current_path) = conn connection ''C$'' (list_arg current_path)"
    by simp
  show ?case
  proof (cases "conn connection ''C$'' (list_arg current_path)")
    case (Inl e)
    with same show ?thesis by simp
  next
    case (Inr contents)
    with same "2.IH" [OF Inr "2.prems"] show ?thesis by simp
  qed
next
  case (3 fnmatch connection rest)
  show ?case by simp
next
  case (4 fnmatch connection matched_dir others rest)
  note step = "4.IH"(1) [OF "4.prems"]
  show ?case
  proof (cases "truthy (returned (recursive_match fnmatch connection matched_dir rest))")
    case True
    with step show ?thesis by (simp add: Let_def)
  next
    case False
    with step "4.IH"(2) [OF refl False "4.prems"] show ?thesis by (simp add: Let_def)
  qed
qed

lemma same_share_try_paths:
  assumes "\<forall>p. conn connection ''C$'' p = conn c' ''C$'' p"
  shows "try_paths fnmatch connection name ps = try_paths fnmatch c' name ps"
  by (induction ps) (simp_all add: Let_def same_share_recursive_match(1) [OF assms] split: list.splits)

lemma same_share_products_loop:
  assumes "\<forall>p. conn connection ''C$'' p = conn c' ''C$'' p"
  shows "products_loop fnmatch connection pm = products_loop fnmatch c' pm"
  by (induction pm) (auto simp: same_share_try_paths [OF assms])

lemma events_not_highlight:
  "Highlight m \<notin> set (events (recursive_match fnmatch connection dir segments))"
  using events_are_listings(1) [of "Highlight m" fnmatch connection dir segments] by auto

lemma try_paths_stop:
  assumes "split p = b # r"
      and "truthy (returned (recursive_match fnmatch connection b r))"
      and "\<forall>q\<in>set pre. \<forall>b' r'. split q = b' # r' \<longrightarrow>
             \<not> truthy (returned (recursive_match fnmatch connection b' r'))"
  shows "try_paths fnmatch connection name (pre @ p # post) =
           try_paths fnmatch connection name pre
             @ events (recursive_match fnmatch connection b r)
             @ [Highlight (''Password manager installed: '' @ name)]"
  using assms(3)
proof (induction pre)
  case Nil
  from assms(1,2) show ?case by simp
next
  case (Cons q pre)
  then show ?case by (cases "split q") (simp_all add: Let_def)
qed

lemma count_try_paths:
  "count_list (try_paths fnmatch connection name ps) (Highlight m) \<le> 1"
  "m \<noteq> ''Password manager installed: '' @ name \<Longrightarrow>
     count_list (try_paths fnmatch connection name ps) (Highlight m) = 0"
  by (induction ps) (auto simp: Let_def events_not_highlight split: list.splits)

lemma count_products_loop_absent:
  "name \<notin> fst ` set pm \<Longrightarrow>
     count_list (products_loop fnmatch connection pm)
       (Highlight (''Password manager installed: '' @ name)) = 0"
  by (induction fnmatch connection pm rule: products_loop.induct)
     (auto simp: count_try_paths(2))

lemma count_products_loop:
  "distinct (map fst pm) \<Longrightarrow>
     count_list (products_loop fnmatch connection pm)
       (Highlight (''Password manager installed: '' @ name)) \<le> 1"
proof (induction fnmatch connection pm rule: products_loop.induct)
  case (1 fnmatch connection)
  show ?case by simp
next
  case (2 fnmatch connection n product rest)
  show ?case
  proof (cases "n = name")
    case True
    with "2.prems" have "name \<notin> fst ` set rest" by auto
    from count_products_loop_absent [OF this, of fnmatch connection]
         count_try_paths(1) [of fnmatch connection n "paths product"
                               "''Password manager installed: '' @ name"]
    show ?thesis by simp
  next
    case False
    with "2.IH" "2.prems" show ?thesis by (simp add: count_try_paths(2))
  qed
qed

subsection \<open>A pattern that is only a root\<close>

text \<open>
  Claim C10. When splitting a pattern on the separator leaves no remaining segments, the
  base case of \<^verbatim>\<open>_recursive_match\<close> returns the one-element list of the pattern itself,
  which is truthy, without any listing request or other event; the loop over the patterns of
  the product then reports the product as installed and stops, so that the whole of what it
  does is the one report. Nothing is checked on the remote side.
\<close>

theorem root_only_pattern_reported:
  assumes "tl (split path) = []"
  shows "returned (recursive_match fnmatch connection (hd (split path)) (tl (split path)))
           = PyList [path]
         \<and> truthy (returned (recursive_match fnmatch connection (hd (split path))
                               (tl (split path))))
         \<and> events (recursive_match fnmatch connection (hd (split path)) (tl (split path))) = []
         \<and> try_paths fnmatch connection name (path # rest) =
             [Highlight (''Password manager installed: '' @ name)]"
proof -
  obtain b bs where s: "split path = b # bs"
    using split_nonempty [of path] by (cases "split path") auto
  with assms have single: "split path = [b]" by simp
  from split_single [OF single] have "b = path" .
  with single show ?thesis by simp
qed

text \<open>
  A pattern written with single backslashes is not split at all: on a machine where no
  directory exists, KeePass is still reported.
\<close>

theorem root_only_pattern_reported_witness:
  "tl (split (''C:'' @ [CHR 0x5C] @ ''Program Files'' @ [CHR 0x5C] @ ''KeePass*'')) = []
   \<and> try_paths glob bare_host ''KeePass''
        [''C:'' @ [CHR 0x5C] @ ''Program Files'' @ [CHR 0x5C] @ ''KeePass*''] =
        [Highlight ''Password manager installed: KeePass'']"
proof -
  have h: "tl (split (''C:'' @ [CHR 0x5C] @ ''Program Files'' @ [CHR 0x5C] @ ''KeePass*'')) = []"
    by code_simp
  from root_only_pattern_reported [OF h, of glob bare_host "''KeePass''" "[]"] h
  show ?thesis by simp
qed

subsection \<open>A failed listing of the pipe namespace\<close>

text \<open>
  Claim C5. When the one listing request for \<^verbatim>\<open>IPC$\<close> fails, the scan of the pipes
  reports no running product: it consists of its announcement, the request and the failure
  written to the error channel. The run goes on: \<^verbatim>\<open>on_login\<close> continues with the whole of
  the path detection. What the path detection does depends on the host name and on the
  listings of \<^verbatim>\<open>C$\<close> only, so it is the same as on a session whose pipe listing succeeds.
\<close>

theorem ipc_listing_failure_is_not_fatal:
  assumes "conn connection ''IPC$'' [CHR 0x5C, CHR ''*''] = Inl e"
  shows "detect_running_processes connection pm =
           [Info (''Detecting running processes on '' @ host connection
                    @ '' by enumerating pipes...''),
            ListPath ''IPC$'' [CHR 0x5C, CHR ''*''],
            Fail e]
         \<and> on_login fnmatch connection =
             Info (''Analyzing target: '' @ get_target connection)
               # detect_running_processes connection password_managers
               @ detect_password_managers fnmatch connection password_managers
         \<and> (\<forall>c' :: connection. host c' = host connection
                  \<and> (\<forall>p. conn c' ''C$'' p = conn connection ''C$'' p)
                \<longrightarrow> detect_password_managers fnmatch c' pm =
                      detect_password_managers fnmatch connection pm)"
proof (intro conjI allI impI)
  from assms
  show "detect_running_processes connection pm =
           [Info (''Detecting running processes on '' @ host connection
                    @ '' by enumerating pipes...''),
            ListPath ''IPC$'' [CHR 0x5C, CHR ''*''],
            Fail e]"
    by (simp add: detect_running_processes_def)
next
  show "on_login fnmatch connection =
             Info (''Analyzing target: '' @ get_target connection)
               # detect_running_processes connection password_managers
               @ detect_password_managers fnmatch connection password_managers"
    by (simp add: on_login_def)
next
  fix c' :: connection
  assume same: "host c' = host connection
      \<and> (\<forall>p. conn c' ''C$'' p = conn connection ''C$'' p)"
  then have "products_loop fnmatch c' pm = products_loop fnmatch connection pm"
    by (intro same_share_products_loop) simp
  with same show "detect_password_managers fnmatch c' pm =
      detect_password_managers fnmatch connection pm"
    by (simp add: detect_password_managers_def)
qed


text \<open>
  On the sample workstation with the pipe listing refused, nothing is reported as running
  and KeePass is still found by its path.
\<close>

theorem ipc_listing_failure_is_not_fatal_witness:
  "conn no_ipc_host ''IPC$'' [CHR 0x5C, CHR ''*''] = Inl ''STATUS_ACCESS_DENIED''
   \<and> detect_running_processes no_ipc_host password_managers =
       [Info ''Detecting running processes on 10.0.0.5 by enumerating pipes...'',
        ListPath ''IPC$'' [CHR 0x5C, CHR ''*''],
        Fail ''STATUS_ACCESS_DENIED'']
   \<and> detect_password_managers glob office_host password_managers =
       detect_password_managers glob no_ipc_host password_managers
   \<and> Highlight ''Password manager installed: KeePass''
       \<in> set (detect_password_managers glob office_host password_managers)"
proof -
  have h: "conn no_ipc_host ''IPC$'' [CHR 0x5C, CHR ''*''] = Inl ''STATUS_ACCESS_DENIED''"
    by (simp add: no_ipc_host_def)
  have hostname: "host no_ipc_host = ''10.0.0.5''"
    by (simp add: no_ipc_host_def office_host_def)
  have same: "host office_host = host no_ipc_host
      \<and> (\<forall>p. conn office_host ''C$'' p = conn no_ipc_host ''C$'' p)"
    by (simp add: no_ipc_host_def)
  have found: "Highlight ''Password manager installed: KeePass''
       \<in> set (detect_password_managers glob office_host password_managers)"
    by code_simp
  note run = ipc_listing_failure_is_not_fatal [OF h, of password_managers glob]
  from run hostname
  have scan: "detect_running_processes no_ipc_host password_managers =
       [Info ''Detecting running processes on 10.0.0.5 by enumerating pipes...'',
        ListPath ''IPC$'' [CHR 0x5C, CHR ''*''],
        Fail ''STATUS_ACCESS_DENIED'']"
    by simp
  from run same
  have "detect_password_managers glob office_host password_managers =
       detect_password_managers glob no_ipc_host password_managers"
    by blast
  with h scan found show ?thesis by blast
qed

subsection \<open>Which products are reported as running\<close>

text \<open>
  Claim C6. When the listing of \<^verbatim>\<open>IPC$\<close> succeeds, a product of the catalog is reported
  as running if and only if one of its identifiers, put in lower case, occurs as a
  contiguous part of the lower-cased long name of one of the listed entries.
\<close>

theorem running_iff_identifier_in_listed_name:
  assumes "conn connection ''IPC$'' [CHR 0x5C, CHR ''*''] = Inr fs"
  shows "Highlight (''Password manager RUNNING: '' @ name)
           \<in> set (detect_running_processes connection pm) \<longleftrightarrow>
         (\<exists>product pipe f pre post.
            (name, product) \<in> set pm \<and> pipe \<in> set (pipes product) \<and> f \<in> set fs
            \<and> lower (get_longname f) = pre @ lower pipe @ post)"
proof -
  have "Highlight (''Password manager RUNNING: '' @ name)
           \<in> set (detect_running_processes connection pm) \<longleftrightarrow>
        Highlight (''Password manager RUNNING: '' @ name) \<in> set (entries_loop pm fs)"
    using assms by (simp add: detect_running_processes_def)
  also have "\<dots> \<longleftrightarrow>
        (\<exists>f\<in>set fs. \<exists>n product. (n, product) \<in> set pm
           \<and> Highlight (''Password manager RUNNING: '' @ name)
               = Highlight (''Password manager RUNNING: '' @ n)
           \<and> (\<exists>pipe\<in>set (pipes product). contains (lower pipe) (lower (get_longname f))))"
    unfolding mem_entries_loop mem_running_loop ..
  also have "\<dots> \<longleftrightarrow>
        (\<exists>f\<in>set fs. \<exists>product. (name, product) \<in> set pm
           \<and> (\<exists>pipe\<in>set (pipes product). contains (lower pipe) (lower (get_longname f))))"
    by simp
  also have "\<dots> \<longleftrightarrow>
         (\<exists>product pipe f pre post.
            (name, product) \<in> set pm \<and> pipe \<in> set (pipes product) \<and> f \<in> set fs
            \<and> lower (get_longname f) = pre @ lower pipe @ post)"
    unfolding contains_iff by blast
  finally show ?thesis .
qed

text \<open>
  The identifier \<^verbatim>\<open>LASTPASS_\<close> matches the listed pipe \<^verbatim>\<open>lastpass_123\<close>, so LastPass is
  reported on the sample workstation.
\<close>

theorem running_iff_identifier_in_listed_name_witness:
  "conn office_host ''IPC$'' [CHR 0x5C, CHR ''*'']
     = Inr [entry ''lsass'', entry ''lastpass_123'', entry ''LastPass_456'']
   \<and> lower ''LASTPASS_'' = ''lastpass_''
   \<and> lower (get_longname (entry ''lastpass_123'')) = [] @ lower ''LASTPASS_'' @ ''123''
   \<and> Highlight ''Password manager RUNNING: LastPass''
       \<in> set (detect_running_processes office_host password_managers)"
proof -
  have h: "conn office_host ''IPC$'' [CHR 0x5C, CHR ''*'']
     = Inr [entry ''lsass'', entry ''lastpass_123'', entry ''LastPass_456'']"
    by (simp add: office_host_def listing_def)
  have low: "lower ''LASTPASS_'' = ''lastpass_''"
    by code_simp
  have sub: "lower (get_longname (entry ''lastpass_123'')) = [] @ lower ''LASTPASS_'' @ ''123''"
    by code_simp
  have cat: "(''LastPass'',
        \<lparr>paths = [''C:'' @ sep @ ''Program Files (x86)'' @ sep @ ''LastPass'',
                 ''C:'' @ sep @ ''ProgramData'' @ sep @ ''LastPass''],
         pipes = [''LASTPASS_'']\<rparr>) \<in> set password_managers"
    by (simp add: password_managers_def)
  have "\<exists>product pipe f pre post.
            (''LastPass'', product) \<in> set password_managers \<and> pipe \<in> set (pipes product)
            \<and> f \<in> set [entry ''lsass'', entry ''lastpass_123'', entry ''LastPass_456'']
            \<and> lower (get_longname f) = pre @ lower pipe @ post"
    using cat sub
    by (intro exI [of _ "\<lparr>paths = [''C:'' @ sep @ ''Program Files (x86)'' @ sep @ ''LastPass'',
                 ''C:'' @ sep @ ''ProgramData'' @ sep @ ''LastPass''],
         pipes = [''LASTPASS_'']\<rparr>"] exI [of _ "''LASTPASS_''"]
           exI [of _ "entry ''lastpass_123''"] exI [of _ "[]"] exI [of _ "''123''"]) simp
  with running_iff_identifier_in_listed_name [OF h, of "''LastPass''" password_managers]
  have "Highlight (''Password manager RUNNING: '' @ ''LastPass'')
       \<in> set (detect_running_processes office_host password_managers)"
    by blast
  with h low sub show ?thesis by simp
qed

subsection \<open>How often a product is reported as running\<close>




subsection \<open>The first pattern that resolves ends the loop of its product\<close>

text \<open>
  Claim C8. The patterns of a product are resolved in their order. When \<open>p\<close> is the first
  pattern that resolves to a truthy value, what the loop does is: the events of the
  patterns before \<open>p\<close>, none of which is a report; the events of resolving \<open>p\<close>; one report
  that the product is installed. The patterns after \<open>p\<close> leave no trace, listing requests
  included: the run is the same without them. In a catalog with distinct names the path
  detection reports each product as installed at most once.
\<close>

theorem first_matching_pattern_stops:
  assumes "split p = b # r"
      and "truthy (returned (recursive_match fnmatch connection b r))"
      and "\<forall>q\<in>set pre. \<forall>b' r'. split q = b' # r' \<longrightarrow>
             \<not> truthy (returned (recursive_match fnmatch connection b' r'))"
  shows "try_paths fnmatch connection name (pre @ p # post) =
           try_paths fnmatch connection name pre
             @ events (recursive_match fnmatch connection b r)
             @ [Highlight (''Password manager installed: '' @ name)]
         \<and> (\<forall>m. Highlight m \<notin> set (try_paths fnmatch connection name pre))
         \<and> try_paths fnmatch connection name (pre @ p # post) =
             try_paths fnmatch connection name (pre @ [p])
         \<and> (distinct (map fst pm) \<longrightarrow>
              count_list (detect_password_managers fnmatch connection pm)
                (Highlight (''Password manager installed: '' @ name)) \<le> 1)"
proof (intro conjI allI impI)
  show stop: "try_paths fnmatch connection name (pre @ p # post) =
           try_paths fnmatch connection name pre
             @ events (recursive_match fnmatch connection b r)
             @ [Highlight (''Password manager installed: '' @ name)]" for post
    by (rule try_paths_stop [OF assms])
  show "try_paths fnmatch connection name (pre @ p # post) =
             try_paths fnmatch connection name (pre @ [p])"
    by (simp only: stop [of post] stop [of "[]"])
next
  fix m
  from assms(3) show "Highlight m \<notin> set (try_paths fnmatch connection name pre)"
  proof (induction pre)
    case Nil
    show ?case by simp
  next
    case (Cons q pre)
    then show ?case
      by (cases "split q") (simp_all add: Let_def events_not_highlight)
  qed
next
  assume "distinct (map fst pm)"
  from count_products_loop [OF this, of fnmatch connection name]
  show "count_list (detect_password_managers fnmatch connection pm)
                (Highlight (''Password manager installed: '' @ name)) \<le> 1"
    by (simp add: detect_password_managers_def)
qed


text \<open>
  On the sample workstation the second of three patterns finds Bitwarden; the third is
  not resolved.
\<close>

theorem first_matching_pattern_stops_witness:
  "split (''C:'' @ sep @ ''Users'' @ sep @ ''*'' @ sep @ ''AppData'' @ sep @ ''Local''
            @ sep @ ''Bitwarden'')
     = ''C:'' # [''Users'', ''*'', ''AppData'', ''Local'', ''Bitwarden'']
   \<and> truthy (returned (recursive_match glob office_host ''C:''
                          [''Users'', ''*'', ''AppData'', ''Local'', ''Bitwarden'']))
   \<and> split (''C:'' @ sep @ ''Program Files'' @ sep @ ''Bitwarden'')
       = ''C:'' # [''Program Files'', ''Bitwarden'']
   \<and> \<not> truthy (returned (recursive_match glob office_host ''C:''
                            [''Program Files'', ''Bitwarden'']))
   \<and> distinct (map fst password_managers)
   \<and> try_paths glob office_host ''Bitwarden''
         ([''C:'' @ sep @ ''Program Files'' @ sep @ ''Bitwarden'']
          @ (''C:'' @ sep @ ''Users'' @ sep @ ''*'' @ sep @ ''AppData'' @ sep @ ''Local''
               @ sep @ ''Bitwarden'')
          # [''C:'' @ sep @ ''ProgramData'' @ sep @ ''Bitwarden'']) =
       [ListPath ''C$'' ''/*'', ListPath ''C$'' ''/Program Files/*'',
        ListPath ''C$'' ''/*'', ListPath ''C$'' ''/Users/*'',
        ListPath ''C$'' ''/Users/alice/*'', ListPath ''C$'' ''/Users/bob/*'',
        ListPath ''C$'' ''/Users/bob/AppData/*'',
        ListPath ''C$'' ''/Users/bob/AppData/Local/*'',
        Highlight ''Password manager installed: Bitwarden'']
   \<and> count_list (detect_password_managers glob office_host password_managers)
         (Highlight ''Password manager installed: Bitwarden'') \<le> 1"
proof -
  let ?p = "''C:'' @ sep @ ''Users'' @ sep @ ''*'' @ sep @ ''AppData'' @ sep @ ''Local''
            @ sep @ ''Bitwarden''"
  let ?q = "''C:'' @ sep @ ''Program Files'' @ sep @ ''Bitwarden''"
  let ?segs = "[''Users'', ''*'', ''AppData'', ''Local'', ''Bitwarden'']"
  have sp: "split ?p = ''C:'' # ?segs"
    by code_simp
  have tp: "truthy (returned (recursive_match glob office_host ''C:'' ?segs))"
    by code_simp
  have sq: "split ?q = ''C:'' # [''Program Files'', ''Bitwarden'']"
    by code_simp
  have fq: "\<not> truthy (returned (recursive_match glob office_host ''C:''
                            [''Program Files'', ''Bitwarden'']))"
    by code_simp
  have earlier: "\<forall>q\<in>set [?q]. \<forall>b' r'. split q = b' # r' \<longrightarrow>
             \<not> truthy (returned (recursive_match glob office_host b' r'))"
    using sq fq by simp
  have d: "distinct (map fst password_managers)"
    by (simp add: password_managers_def)
  have before: "try_paths glob office_host ''Bitwarden'' [?q] =
      [ListPath ''C$'' ''/*'', ListPath ''C$'' ''/Program Files/*'']"
    by code_simp
  have during: "events (recursive_match glob office_host ''C:'' ?segs) =
       [ListPath ''C$'' ''/*'', ListPath ''C$'' ''/Users/*'',
        ListPath ''C$'' ''/Users/alice/*'', ListPath ''C$'' ''/Users/bob/*'',
        ListPath ''C$'' ''/Users/bob/AppData/*'',
        ListPath ''C$'' ''/Users/bob/AppData/Local/*'']"
    by code_simp
  note stop = first_matching_pattern_stops [OF sp tp earlier, of "''Bitwarden''"
      "[''C:'' @ sep @ ''ProgramData'' @ sep @ ''Bitwarden'']" password_managers]
  from stop have run: "try_paths glob office_host ''Bitwarden''
         ([?q] @ ?p # [''C:'' @ sep @ ''ProgramData'' @ sep @ ''Bitwarden'']) =
           try_paths glob office_host ''Bitwarden'' [?q]
             @ events (recursive_match glob office_host ''C:'' ?segs)
             @ [Highlight (''Password manager installed: '' @ ''Bitwarden'')]"
    by (rule conjunct1)
  from stop d
  have once: "count_list (detect_password_managers glob office_host password_managers)
         (Highlight (''Password manager installed: '' @ ''Bitwarden'')) \<le> 1"
    by blast
  from run have run': "try_paths glob office_host ''Bitwarden''
         ([?q] @ ?p # [''C:'' @ sep @ ''ProgramData'' @ sep @ ''Bitwarden'']) =
       [ListPath ''C$'' ''/*'', ListPath ''C$'' ''/Program Files/*'',
        ListPath ''C$'' ''/*'', ListPath ''C$'' ''/Users/*'',
        ListPath ''C$'' ''/Users/alice/*'', ListPath ''C$'' ''/Users/bob/*'',
        ListPath ''C$'' ''/Users/bob/AppData/*'',
        ListPath ''C$'' ''/Users/bob/AppData/Local/*'',
        Highlight ''Password manager installed: Bitwarden'']"
    unfolding before during by simp
  from once have once': "count_list (detect_password_managers glob office_host password_managers)
         (Highlight ''Password manager installed: Bitwarden'') \<le> 1"
    by simp
  from sp tp sq fq d run' once' show ?thesis
    by (intro conjI)
qed

subsection \<open>A listing that fails on one branch\<close>

text \<open>
  The loop over the matched directories runs through entries that do not resolve, and an
  entry whose listing fails costs one request and is otherwise passed over.
\<close>

lemma match_loop_append:
  assumes "\<forall>d\<in>set pre. \<not> truthy (returned (recursive_match fnmatch connection d rest))"
  shows "returned (match_loop fnmatch connection (pre @ xs) rest) =
           returned (match_loop fnmatch connection xs rest)
         \<and> events (match_loop fnmatch connection (pre @ xs) rest) =
             events (match_loop fnmatch connection pre rest)
               @ events (match_loop fnmatch connection xs rest)
         \<and> depth (match_loop fnmatch connection (pre @ xs) rest) =
             max (depth (match_loop fnmatch connection pre rest))
                 (depth (match_loop fnmatch connection xs rest))"
  using assms
proof (induction pre)
  case Nil
  show ?case by simp
next
  case (Cons d pre)
  then show ?case by (simp add: Let_def max.assoc)
qed

lemma match_loop_failed_first:
  assumes "conn connection ''C$'' (list_arg bad) = Inl e" and "rest \<noteq> []"
  shows "returned (match_loop fnmatch connection (bad # post) rest) =
           returned (match_loop fnmatch connection post rest)
         \<and> events (match_loop fnmatch connection (bad # post) rest) =
             ListPath ''C$'' (list_arg bad) # events (match_loop fnmatch connection post rest)
         \<and> depth (match_loop fnmatch connection (bad # post) rest) =
             max 1 (depth (match_loop fnmatch connection post rest))"
proof -
  from assms(2) obtain s ss where "rest = s # ss" by (cases rest) auto
  with assms(1) show ?thesis by (simp add: Let_def)
qed

lemma truthy_match_loop_iff:
  "truthy (returned (match_loop fnmatch connection dirs rest)) \<longleftrightarrow>
     (\<exists>d\<in>set dirs. truthy (returned (recursive_match fnmatch connection d rest)))"
  by (simp only: truthy_iff_frontier frontier_nonempty_iff [of fnmatch connection dirs rest])

text \<open>
  Claim C2. Let the listing of a directory \<open>parent\<close> succeed and let its children matching
  the current segment be \<open>pre\<close>, then \<open>bad\<close>, then \<open>post\<close>, where the listing of \<open>bad\<close> fails,
  segments remain after the current one, and nothing in \<open>pre\<close> resolves. Then the call on
  \<open>bad\<close> returns \<^verbatim>\<open>False\<close> after its one request instead of raising. The requests of the
  resolution from \<open>parent\<close> are: the listing of \<open>parent\<close>, the requests of the loop over \<open>pre\<close>,
  the failed listing of \<open>bad\<close>, and then all the requests of the loop over the siblings
  \<open>post\<close>. Its result is the result of the loop over \<open>post\<close>: it is \<^verbatim>\<open>True\<close> exactly when
  a sibling after \<open>bad\<close> resolves. Moreover, at any position of any pattern, when \<open>bad\<close> is in
  the frontier together with a directory from which the rest of the pattern resolves, the
  whole resolution returns \<^verbatim>\<open>True\<close>.
\<close>

theorem failed_listing_spares_siblings:
  assumes "conn connection ''C$'' (list_arg parent) = Inr contents"
      and "matched_dirs fnmatch parent segment contents = pre @ bad # post"
      and "conn connection ''C$'' (list_arg bad) = Inl e"
      and "rest \<noteq> []"
      and "\<forall>d\<in>set pre. \<not> truthy (returned (recursive_match fnmatch connection d rest))"
  shows "recursive_match fnmatch connection bad rest =
           \<lparr>returned = PyBool False,
            events = [ListPath ''C$'' (list_arg bad)], depth = 0\<rparr>
         \<and> events (recursive_match fnmatch connection parent (segment # rest)) =
             ListPath ''C$'' (list_arg parent)
               # events (match_loop fnmatch connection pre rest)
               @ ListPath ''C$'' (list_arg bad)
               # events (match_loop fnmatch connection post rest)
         \<and> returned (recursive_match fnmatch connection parent (segment # rest)) =
             returned (match_loop fnmatch connection post rest)
         \<and> (returned (recursive_match fnmatch connection parent (segment # rest)) = PyBool True
              \<longleftrightarrow> (\<exists>good\<in>set post.
                     truthy (returned (recursive_match fnmatch connection good rest))))
         \<and> (\<forall>base segments k good.
               k < length segments
               \<and> bad \<in> set (frontier fnmatch connection [base] (take k segments))
               \<and> good \<in> set (frontier fnmatch connection [base] (take k segments))
               \<and> truthy (returned (recursive_match fnmatch connection good (drop k segments)))
               \<longrightarrow> returned (recursive_match fnmatch connection base segments) = PyBool True)"
proof (intro conjI allI impI)
  from assms(4) obtain s ss where "rest = s # ss" by (cases rest) auto
  with assms(3)
  show "recursive_match fnmatch connection bad rest =
           \<lparr>returned = PyBool False,
            events = [ListPath ''C$'' (list_arg bad)], depth = 0\<rparr>"
    by simp
next
  note whole = match_loop_append [OF assms(5), of "bad # post"]
  note tail = match_loop_failed_first [OF assms(3,4), of fnmatch post]
  from assms(1,2) whole tail
  show ev: "events (recursive_match fnmatch connection parent (segment # rest)) =
             ListPath ''C$'' (list_arg parent)
               # events (match_loop fnmatch connection pre rest)
               @ ListPath ''C$'' (list_arg bad)
               # events (match_loop fnmatch connection post rest)"
    by (simp add: Let_def)
  from assms(1,2) whole tail
  show ret: "returned (recursive_match fnmatch connection parent (segment # rest)) =
             returned (match_loop fnmatch connection post rest)"
    by (simp add: Let_def)
  obtain b where b: "returned (match_loop fnmatch connection post rest) = PyBool b"
    using returned_bool(2) [of fnmatch connection post rest] by blast
  with truthy_match_loop_iff [of fnmatch connection post rest] ret
  show "returned (recursive_match fnmatch connection parent (segment # rest)) = PyBool True
              \<longleftrightarrow> (\<exists>good\<in>set post.
                     truthy (returned (recursive_match fnmatch connection good rest)))"
    by simp
next
  fix base segments k good
  assume h: "k < length segments
               \<and> bad \<in> set (frontier fnmatch connection [base] (take k segments))
               \<and> good \<in> set (frontier fnmatch connection [base] (take k segments))
               \<and> truthy (returned (recursive_match fnmatch connection good (drop k segments)))"
  then have "frontier fnmatch connection [good] (drop k segments) \<noteq> []"
    by (simp add: truthy_iff_frontier(1))
  with h
  have "frontier fnmatch connection
          (frontier fnmatch connection [base] (take k segments)) (drop k segments) \<noteq> []"
    unfolding frontier_nonempty_iff [of fnmatch connection
        "frontier fnmatch connection [base] (take k segments)"]
    by blast
  moreover
  have "frontier fnmatch connection [base] segments =
      frontier fnmatch connection
        (frontier fnmatch connection [base] (take k segments)) (drop k segments)"
    using frontier_append_segments [of fnmatch connection "[base]" "take k segments"
        "drop k segments"]
    by simp
  ultimately
  have t: "truthy (returned (recursive_match fnmatch connection base segments))"
    by (simp add: truthy_iff_frontier(1))
  from h have "segments \<noteq> []" by auto
  from returned_bool(1) [OF this, of fnmatch connection base] t
  show "returned (recursive_match fnmatch connection base segments) = PyBool True"
    by auto
qed

text \<open>
  On the sample workstation the profile of \<^verbatim>\<open>alice\<close> cannot be listed; the resolution
  goes on to the profile of \<^verbatim>\<open>bob\<close> and finds Bitwarden there.
\<close>

theorem failed_listing_spares_siblings_witness:
  "conn office_host ''C$'' (list_arg ''C:/Users'') = Inr [entry ''alice'', entry ''bob'']
   \<and> matched_dirs glob ''C:/Users'' ''*'' [entry ''alice'', entry ''bob'']
       = [] @ ''C:/Users/alice'' # [''C:/Users/bob'']
   \<and> conn office_host ''C$'' (list_arg ''C:/Users/alice'') = Inl ''STATUS_OBJECT_PATH_NOT_FOUND''
   \<and> events (recursive_match glob office_host ''C:/Users''
               (''*'' # [''AppData'', ''Local'', ''Bitwarden''])) =
       [ListPath ''C$'' ''/Users/*'', ListPath ''C$'' ''/Users/alice/*'',
        ListPath ''C$'' ''/Users/bob/*'', ListPath ''C$'' ''/Users/bob/AppData/*'',
        ListPath ''C$'' ''/Users/bob/AppData/Local/*'']
   \<and> returned (recursive_match glob office_host ''C:/Users''
                 (''*'' # [''AppData'', ''Local'', ''Bitwarden''])) = PyBool True"
proof -
  let ?rest = "[''AppData'', ''Local'', ''Bitwarden'']"
  have listed: "conn office_host ''C$'' (list_arg ''C:/Users'')
      = Inr [entry ''alice'', entry ''bob'']"
    by code_simp
  have both: "matched_dirs glob ''C:/Users'' ''*'' [entry ''alice'', entry ''bob'']
       = [] @ ''C:/Users/alice'' # [''C:/Users/bob'']"
    by code_simp
  have fail: "conn office_host ''C$'' (list_arg ''C:/Users/alice'')
      = Inl ''STATUS_OBJECT_PATH_NOT_FOUND''"
    by code_simp
  have more: "?rest \<noteq> []"
    by simp
  have none: "\<forall>d\<in>set []. \<not> truthy (returned (recursive_match glob office_host d ?rest))"
    by simp
  have args: "list_arg ''C:/Users'' = ''/Users/*''" "list_arg ''C:/Users/alice'' = ''/Users/alice/*''"
    by code_simp+
  have after: "events (match_loop glob office_host [''C:/Users/bob''] ?rest) =
       [ListPath ''C$'' ''/Users/bob/*'', ListPath ''C$'' ''/Users/bob/AppData/*'',
        ListPath ''C$'' ''/Users/bob/AppData/Local/*'']"
    by code_simp
  have via: "truthy (returned (recursive_match glob office_host ''C:/Users/bob'' ?rest))"
    by code_simp
  note spared = failed_listing_spares_siblings [OF listed both fail more none]
  from spared [THEN conjunct2, THEN conjunct1]
  have "events (recursive_match glob office_host ''C:/Users'' (''*'' # ?rest)) =
             ListPath ''C$'' (list_arg ''C:/Users'')
               # events (match_loop glob office_host [] ?rest)
               @ ListPath ''C$'' (list_arg ''C:/Users/alice'')
               # events (match_loop glob office_host [''C:/Users/bob''] ?rest)" .
  then have trace: "events (recursive_match glob office_host ''C:/Users'' (''*'' # ?rest)) =
       [ListPath ''C$'' ''/Users/*'', ListPath ''C$'' ''/Users/alice/*'',
        ListPath ''C$'' ''/Users/bob/*'', ListPath ''C$'' ''/Users/bob/AppData/*'',
        ListPath ''C$'' ''/Users/bob/AppData/Local/*'']"
    unfolding args after by simp
  have sibling: "''C:/Users/bob'' \<in> set [''C:/Users/bob'']"
    by simp
  from spared [THEN conjunct2, THEN conjunct2, THEN conjunct2, THEN conjunct1] via sibling
  have found: "returned (recursive_match glob office_host ''C:/Users'' (''*'' # ?rest))
      = PyBool True"
    by blast
  from listed both fail trace found show ?thesis
    by (intro conjI)
qed

subsection \<open>A segment that matches nothing\<close>

text \<open>
  Claim C7. If the segment at position \<open>k\<close> matches no child of any directory of the
  frontier, so that the next frontier is empty, then resolution returns \<^verbatim>\<open>False\<close> and every
  event of the resolution is a listing request for a directory of a frontier at a position
  up to \<open>k\<close>: the parent directories of that segment or their ancestors, nothing deeper.
\<close>

theorem empty_level_stops_listing:
  assumes "k < length segments"
      and "frontier fnmatch connection [base] (take (Suc k) segments) = []"
  shows "returned (recursive_match fnmatch connection base segments) = PyBool False
         \<and> (\<forall>e\<in>set (events (recursive_match fnmatch connection base segments)).
               \<exists>j\<le>k. \<exists>p\<in>set (frontier fnmatch connection [base] (take j segments)).
                 e = ListPath ''C$'' (list_arg p))"
proof (intro conjI ballI)
  have later: "frontier fnmatch connection [base] (take j segments) = []" if "k < j" for j
  proof -
    from that have "take j segments = take (Suc k) segments @ drop (Suc k) (take j segments)"
      by (metis Suc_leI append_take_drop_id min.absorb2 take_take min.commute)
    then have "frontier fnmatch connection [base] (take j segments) =
        frontier fnmatch connection
          (frontier fnmatch connection [base] (take (Suc k) segments))
          (drop (Suc k) (take j segments))"
      by (metis frontier_append_segments)
    with assms(2) show ?thesis by simp
  qed
  from later [of "length segments"] assms(1)
  have "\<not> truthy (returned (recursive_match fnmatch connection base segments))"
    by (simp add: truthy_iff_frontier(1))
  moreover from assms(1) have "segments \<noteq> []" by auto
  ultimately show "returned (recursive_match fnmatch connection base segments) = PyBool False"
    using returned_bool(1) [of segments fnmatch connection base] by auto
next
  fix e
  assume "e \<in> set (events (recursive_match fnmatch connection base segments))"
  from events_are_listings(1) [OF this] obtain j p
    where p: "p \<in> set (frontier fnmatch connection [base] (take j segments))"
      and e: "e = ListPath ''C$'' (list_arg p)"
    by blast
  have "j \<le> k"
  proof (rule ccontr)
    assume "\<not> j \<le> k"
    then have "k < j" by simp
    then have "take j segments = take (Suc k) segments @ drop (Suc k) (take j segments)"
      by (metis Suc_leI append_take_drop_id min.absorb2 take_take min.commute)
    then have "frontier fnmatch connection [base] (take j segments) =
        frontier fnmatch connection
          (frontier fnmatch connection [base] (take (Suc k) segments))
          (drop (Suc k) (take j segments))"
      by (metis frontier_append_segments)
    with assms(2) p show False by simp
  qed
  with p e
  show "\<exists>j\<le>k. \<exists>p\<in>set (frontier fnmatch connection [base] (take j segments)).
                 e = ListPath ''C$'' (list_arg p)"
    by blast
qed


text \<open>
  On the sample workstation the pattern of 1Password under the user profiles dies out at its
  last segment; the six requests are for directories above it.
\<close>

theorem empty_level_stops_listing_witness:
  "(4::nat) < length [''Users'', ''*'', ''AppData'', ''*'', ''1Password'']
   \<and> frontier glob office_host [''C:'']
         (take (Suc 4) [''Users'', ''*'', ''AppData'', ''*'', ''1Password'']) = []
   \<and> returned (recursive_match glob office_host ''C:''
                  [''Users'', ''*'', ''AppData'', ''*'', ''1Password'']) = PyBool False
   \<and> events (recursive_match glob office_host ''C:''
                [''Users'', ''*'', ''AppData'', ''*'', ''1Password'']) =
       [ListPath ''C$'' ''/*'', ListPath ''C$'' ''/Users/*'',
        ListPath ''C$'' ''/Users/alice/*'', ListPath ''C$'' ''/Users/bob/*'',
        ListPath ''C$'' ''/Users/bob/AppData/*'',
        ListPath ''C$'' ''/Users/bob/AppData/Local/*'']"
proof -
  let ?segs = "[''Users'', ''*'', ''AppData'', ''*'', ''1Password'']"
  have len: "(4::nat) < length ?segs"
    by simp
  have none: "frontier glob office_host [''C:''] (take (Suc 4) ?segs) = []"
    by code_simp
  have asked: "events (recursive_match glob office_host ''C:'' ?segs) =
       [ListPath ''C$'' ''/*'', ListPath ''C$'' ''/Users/*'',
        ListPath ''C$'' ''/Users/alice/*'', ListPath ''C$'' ''/Users/bob/*'',
        ListPath ''C$'' ''/Users/bob/AppData/*'',
        ListPath ''C$'' ''/Users/bob/AppData/Local/*'']"
    by code_simp
  from empty_level_stops_listing [OF len none]
  have "returned (recursive_match glob office_host ''C:'' ?segs) = PyBool False"
    by (rule conjunct1)
  with len none asked show ?thesis
    by (intro conjI)
qed

subsection \<open>Depth of the recursion\<close>

text \<open>
  \<open>recursive_match\<close> and \<open>match_loop\<close> are total: each recursive call of the method is on the
  tail of the list of segments, and each turn of the loop is on the tail of the list of
  matched directories, which is the termination order found at their definition.

  Claim C9 says that the recursion depth equals the number of remaining segments. It is
  smaller whenever no branch gets through: on the sample workstation the pattern of
  1Password under \<^verbatim>\<open>Program Files\<close> has two segments and the recursion stops at depth one,
  where the listing shows no such directory.
\<close>

theorem recursion_depth_counterexample:
  "depth (recursive_match glob office_host ''C:'' [''Program Files'', ''1Password'']) = 1
   \<and> depth (recursive_match glob office_host ''C:'' [''Program Files'', ''1Password''])
       \<noteq> length [''Program Files'', ''1Password'']"
  by code_simp

text \<open>
  Claim C9, as the code has it. With no segment left the call returns at once, with a
  truthy value and no recursion. Since every recursive call consumes exactly one segment,
  the recursion depth is at most the number of remaining segments; it reaches that number
  exactly when the result is truthy, that is, when some branch consumes all segments. The
  result is truthy exactly when the final frontier of the pattern is not empty.
\<close>

theorem recursion_depth_bounded_by_segments:
  "recursive_match fnmatch connection base [] =
     \<lparr>returned = PyList [base], events = [], depth = 0\<rparr>
   \<and> depth (recursive_match fnmatch connection base segments) \<le> length segments
   \<and> (depth (recursive_match fnmatch connection base segments) = length segments
        \<longleftrightarrow> truthy (returned (recursive_match fnmatch connection base segments)))
   \<and> (truthy (returned (recursive_match fnmatch connection base segments))
        \<longleftrightarrow> frontier fnmatch connection [base] segments \<noteq> [])"
  using depth_bounds(1) [of fnmatch connection base segments]
        truthy_iff_frontier(1) [of fnmatch connection base segments]
  by simp

subsection \<open>What resolution decides\<close>

text \<open>
  The path that the resolver builds for a directory, and the request it sends for it, are
  those of the directory's names when the names are those of plain entries.
\<close>

lemma replace_C_without_colon: "CHR '':'' \<notin> set xs \<Longrightarrow> replace_C xs = xs"
  by (induction xs rule: replace_C.induct) auto

lemma list_arg_local_path:
  assumes "\<forall>n\<in>set dir. CHR '':'' \<notin> set n"
  shows "list_arg (local_path dir) = dir_request dir"
proof -
  from assms have "CHR '':'' \<notin> set (concat (map (\<lambda>n. ''/'' @ n) dir))"
    by auto
  then have "replace_C (concat (map (\<lambda>n. ''/'' @ n) dir)) = concat (map (\<lambda>n. ''/'' @ n) dir)"
    by (rule replace_C_without_colon)
  then show ?thesis
    by (simp add: list_arg_def local_path_def dir_request_def)
qed

lemma last_local_path:
  assumes "\<forall>n\<in>set dir. n \<noteq> [] \<and> CHR ''/'' \<notin> set n"
  shows "last (local_path dir) \<noteq> CHR ''/''"
proof (cases dir rule: rev_cases)
  case Nil
  then show ?thesis by (simp add: local_path_def)
next
  case (snoc ds d)
  with assms have d: "d \<noteq> []" "CHR ''/'' \<notin> set d" by auto
  from snoc d(1) have "last (local_path dir) = last d"
    by (simp add: local_path_def)
  moreover from d(1) have "last d \<in> set d" by (rule last_in_set)
  ultimately show ?thesis
    using d(2) by auto
qed

lemma join_local_path:
  assumes "\<forall>m\<in>set dir. m \<noteq> [] \<and> CHR ''/'' \<notin> set m"
      and "n \<noteq> []" and "CHR ''/'' \<notin> set n"
  shows "join (local_path dir) n = local_path (dir @ [n])"
proof -
  from assms(2,3) have "\<not> prefix ''/'' n"
    by (cases n) auto
  moreover have "local_path dir \<noteq> []"
    by (simp add: local_path_def)
  moreover have "\<not> suffix ''/'' (local_path dir)"
  proof
    assume "suffix ''/'' (local_path dir)"
    then obtain zs where "local_path dir = zs @ ''/''"
      by (auto simp: suffix_def)
    then have "last (local_path dir) = CHR ''/''" by simp
    with last_local_path [OF assms(1)] show False by simp
  qed
  ultimately show ?thesis
    by (simp add: join_def local_path_def)
qed


lemma resolve_from_local_path:
  assumes wf: "\<forall>p contents. conn connection ''C$'' p = Inr contents
                 \<longrightarrow> (\<forall>item\<in>set contents. plain_entry item)"
  shows "\<forall>n\<in>set dir. n \<noteq> [] \<and> CHR ''/'' \<notin> set n \<and> CHR '':'' \<notin> set n \<Longrightarrow>
     frontier fnmatch connection [local_path dir] segments \<noteq> [] \<longleftrightarrow>
       (\<exists>names. list_all2 fnmatch names segments \<and> path_exists connection dir names)"
proof (induction segments arbitrary: dir)
  case Nil
  have "list_all2 fnmatch [] [] \<and> path_exists connection dir []" by simp
  then have "\<exists>names. list_all2 fnmatch names [] \<and> path_exists connection dir names" ..
  then show ?case by simp
next
  case (Cons segment segments)
  from Cons.prems have req: "list_arg (local_path dir) = dir_request dir"
    by (intro list_arg_local_path) simp
  show ?case
  proof (cases "conn connection ''C$'' (dir_request dir)")
    case (Inl e)
    have "\<not> (\<exists>names. list_all2 fnmatch names (segment # segments)
              \<and> path_exists connection dir names)"
    proof
      assume "\<exists>names. list_all2 fnmatch names (segment # segments)
              \<and> path_exists connection dir names"
      then obtain names where m: "list_all2 fnmatch names (segment # segments)"
          and p: "path_exists connection dir names" by blast
      from m obtain n ns where "names = n # ns" by (cases names) auto
      with p Inl show False by simp
    qed
    moreover from Inl req have "expand fnmatch connection segment (local_path dir) = []"
      by (simp add: expand_def)
    ultimately show ?thesis by simp
  next
    case (Inr contents)
    from wf Inr have plain: "\<forall>item\<in>set contents. plain_entry item" by blast
    have step: "frontier fnmatch connection [local_path (dir @ [get_longname item])] segments \<noteq> []
        \<longleftrightarrow> (\<exists>names. list_all2 fnmatch names segments
               \<and> path_exists connection (dir @ [get_longname item]) names)"
      if "item \<in> set contents" for item
    proof (rule Cons.IH)
      from that plain have "plain_entry item" by blast
      with Cons.prems
      show "\<forall>n\<in>set (dir @ [get_longname item]).
              n \<noteq> [] \<and> CHR ''/'' \<notin> set n \<and> CHR '':'' \<notin> set n"
        by (auto simp: plain_entry_def)
    qed
    have joined: "join (local_path dir) (get_shortname item) = local_path (dir @ [get_longname item])"
      if "item \<in> set contents" for item
    proof -
      from that plain have p: "plain_entry item" by blast
      with Cons.prems
      have "join (local_path dir) (get_longname item) = local_path (dir @ [get_longname item])"
        by (intro join_local_path) (auto simp: plain_entry_def)
      with p show ?thesis by (simp add: plain_entry_def)
    qed
    have "frontier fnmatch connection [local_path dir] (segment # segments) \<noteq> [] \<longleftrightarrow>
        (\<exists>d\<in>set (matched_dirs fnmatch (local_path dir) segment contents).
           frontier fnmatch connection [d] segments \<noteq> [])"
      using Inr req frontier_nonempty_iff [of fnmatch connection
          "matched_dirs fnmatch (local_path dir) segment contents" segments]
      by (simp add: expand_def)
    also have "\<dots> \<longleftrightarrow>
        (\<exists>item\<in>set contents. fnmatch (get_shortname item) segment
           \<and> frontier fnmatch connection
                 [join (local_path dir) (get_shortname item)] segments \<noteq> [])"
      by (auto simp: matched_dirs_def)
    also have "\<dots> \<longleftrightarrow>
        (\<exists>item\<in>set contents. fnmatch (get_longname item) segment
           \<and> (\<exists>names. list_all2 fnmatch names segments
                 \<and> path_exists connection (dir @ [get_longname item]) names))"
      using plain joined step by (auto simp: plain_entry_def)
    also have "\<dots> \<longleftrightarrow>
        (\<exists>names. list_all2 fnmatch names (segment # segments)
           \<and> path_exists connection dir names)"
    proof
      assume "\<exists>item\<in>set contents. fnmatch (get_longname item) segment
           \<and> (\<exists>names. list_all2 fnmatch names segments
                 \<and> path_exists connection (dir @ [get_longname item]) names)"
      then obtain item names where i: "item \<in> set contents"
          and f: "fnmatch (get_longname item) segment"
          and m: "list_all2 fnmatch names segments"
          and p: "path_exists connection (dir @ [get_longname item]) names"
        by blast
      from i f m p Inr
      have "list_all2 fnmatch (get_longname item # names) (segment # segments)
          \<and> path_exists connection dir (get_longname item # names)"
        by simp
      then show "\<exists>names. list_all2 fnmatch names (segment # segments)
           \<and> path_exists connection dir names" ..
    next
      assume "\<exists>names. list_all2 fnmatch names (segment # segments)
           \<and> path_exists connection dir names"
      then obtain names where m: "list_all2 fnmatch names (segment # segments)"
          and p: "path_exists connection dir names" by blast
      from m obtain n ns where names: "names = n # ns" and f: "fnmatch n segment"
          and ms: "list_all2 fnmatch ns segments"
        by (cases names) auto
      from p names Inr obtain item where "item \<in> set contents" and "n = get_longname item"
          and "path_exists connection (dir @ [n]) ns"
        by auto
      with f ms
      show "\<exists>item\<in>set contents. fnmatch (get_longname item) segment
           \<and> (\<exists>names. list_all2 fnmatch names segments
                 \<and> path_exists connection (dir @ [get_longname item]) names)"
        by blast
    qed
    finally show ?thesis .
  qed
qed


text \<open>
  Claim C1 says that, for every pattern and every remote tree, the resolver returns true if
  and only if the pattern matches an existing concrete path reachable from the root of the
  share. Two runs show otherwise. A pattern written with single backslashes is not split, so
  it is its own root and resolves to a truthy value with nothing checked, on a machine where
  no directory exists. And on a machine that lists \<^verbatim>\<open>Program Files\<close> and \<^verbatim>\<open>KeePass2\<close> under
  the short names \<^verbatim>\<open>PROGRA~1\<close> and \<^verbatim>\<open>KEEPAS~1\<close>, the pattern of KeePass matches an existing
  path and the resolver, which compares short names, returns \<^verbatim>\<open>False\<close>.
\<close>

theorem pattern_matches_existing_path_counterexample:
  "split (''C:'' @ [CHR 0x5C] @ ''Program Files'' @ [CHR 0x5C] @ ''KeePass*'')
     = [''C:'' @ [CHR 0x5C] @ ''Program Files'' @ [CHR 0x5C] @ ''KeePass*'']
   \<and> truthy (returned (recursive_match glob bare_host
         (''C:'' @ [CHR 0x5C] @ ''Program Files'' @ [CHR 0x5C] @ ''KeePass*'') []))
   \<and> \<not> matches_existing_path glob bare_host
         (''C:'' @ [CHR 0x5C] @ ''Program Files'' @ [CHR 0x5C] @ ''KeePass*'') []
   \<and> \<not> truthy (returned (recursive_match glob dos_host ''C:''
                            [''Program Files'', ''KeePass*'']))
   \<and> matches_existing_path glob dos_host ''C:'' [''Program Files'', ''KeePass*'']"
proof (intro conjI)
  show "split (''C:'' @ [CHR 0x5C] @ ''Program Files'' @ [CHR 0x5C] @ ''KeePass*'')
     = [''C:'' @ [CHR 0x5C] @ ''Program Files'' @ [CHR 0x5C] @ ''KeePass*'']"
    by code_simp
  show "truthy (returned (recursive_match glob bare_host
         (''C:'' @ [CHR 0x5C] @ ''Program Files'' @ [CHR 0x5C] @ ''KeePass*'') []))"
    by simp
  show "\<not> matches_existing_path glob bare_host
         (''C:'' @ [CHR 0x5C] @ ''Program Files'' @ [CHR 0x5C] @ ''KeePass*'') []"
    by (simp add: matches_existing_path_def)
  show "\<not> truthy (returned (recursive_match glob dos_host ''C:''
                            [''Program Files'', ''KeePass*'']))"
    by code_simp
  have "list_all2 glob [''Program Files'', ''KeePass2''] [''Program Files'', ''KeePass*'']
      \<and> path_exists dos_host [] [''Program Files'', ''KeePass2'']"
    by code_simp
  then have "\<exists>names. list_all2 glob names [''Program Files'', ''KeePass*'']
      \<and> path_exists dos_host [] names" ..
  then show "matches_existing_path glob dos_host ''C:'' [''Program Files'', ''KeePass*'']"
    by (simp add: matches_existing_path_def)
qed

text \<open>
  Claim C1, as the code has it. Let every entry listed on \<^verbatim>\<open>C$\<close> be plain: its name is not
  empty, has neither \<^verbatim>\<open>/\<close> nor \<^verbatim>\<open>:\<close> in it, and is also its short name. Then for every pattern
  with root \<^verbatim>\<open>C:\<close> the resolver returns a truthy value if and only if the pattern matches an
  existing concrete path reachable from the root of the share. A pattern that is only a root
  resolves to a truthy value whatever the root. In particular, with the single product
  KeePass and its pattern \<^verbatim>\<open>KeePass*\<close> under \<^verbatim>\<open>Program Files\<close>, on the sample workstation where
  that directory lists \<^verbatim>\<open>KeePass2\<close> and \<^verbatim>\<open>Other\<close>, the product is reported as installed.
\<close>

theorem pattern_matches_existing_path:
  assumes "\<forall>p contents. conn connection ''C$'' p = Inr contents
             \<longrightarrow> (\<forall>item\<in>set contents. plain_entry item)"
  shows "(truthy (returned (recursive_match fnmatch connection ''C:'' segments))
            \<longleftrightarrow> matches_existing_path fnmatch connection ''C:'' segments)
         \<and> truthy (returned (recursive_match fnmatch connection root []))
         \<and> split (''C:'' @ sep @ ''Program Files'' @ sep @ ''KeePass*'')
             = ''C:'' # [''Program Files'', ''KeePass*'']
         \<and> conn office_host ''C$'' (dir_request [''Program Files''])
             = Inr [entry ''KeePass2'', entry ''Other'']
         \<and> detect_password_managers glob office_host
               [(''KeePass'',
                 \<lparr>paths = [''C:'' @ sep @ ''Program Files'' @ sep @ ''KeePass*''],
                  pipes = []\<rparr>)] =
             [Info ''Checking for known password manager file paths on 10.0.0.5...'',
              ListPath ''C$'' ''/*'', ListPath ''C$'' ''/Program Files/*'',
              Highlight ''Password manager installed: KeePass'']"
proof (intro conjI)
  have "local_path [] = ''C:''"
    by (simp add: local_path_def)
  with resolve_from_local_path [OF assms, of "[]" fnmatch segments]
  show "truthy (returned (recursive_match fnmatch connection ''C:'' segments))
            \<longleftrightarrow> matches_existing_path fnmatch connection ''C:'' segments"
    by (simp add: truthy_iff_frontier(1) matches_existing_path_def)
  show "truthy (returned (recursive_match fnmatch connection root []))"
    by simp
  show "split (''C:'' @ sep @ ''Program Files'' @ sep @ ''KeePass*'')
             = ''C:'' # [''Program Files'', ''KeePass*'']"
    by code_simp
  show "conn office_host ''C$'' (dir_request [''Program Files''])
             = Inr [entry ''KeePass2'', entry ''Other'']"
    by code_simp
  show "detect_password_managers glob office_host
               [(''KeePass'',
                 \<lparr>paths = [''C:'' @ sep @ ''Program Files'' @ sep @ ''KeePass*''],
                  pipes = []\<rparr>)] =
             [Info ''Checking for known password manager file paths on 10.0.0.5...'',
              ListPath ''C$'' ''/*'', ListPath ''C$'' ''/Program Files/*'',
              Highlight ''Password manager installed: KeePass'']"
    by code_simp
qed

text \<open>
  The sample workstation lists plain entries only; there the resolver and the existence of
  a matching path agree on the pattern of KeePass and on a pattern of 1Password.
\<close>

theorem pattern_matches_existing_path_witness:
  "truthy (returned (recursive_match glob office_host ''C:'' [''Program Files'', ''KeePass*'']))
   \<and> matches_existing_path glob office_host ''C:'' [''Program Files'', ''KeePass*'']
   \<and> \<not> truthy (returned (recursive_match glob office_host ''C:''
                            [''Program Files'', ''1Password'']))
   \<and> \<not> matches_existing_path glob office_host ''C:'' [''Program Files'', ''1Password'']"
proof -
  have wf: "\<forall>p contents. conn office_host ''C$'' p = Inr contents
             \<longrightarrow> (\<forall>item\<in>set contents. plain_entry item)"
    by (auto simp: office_host_def listing_def entry_def plain_entry_def
             split: if_splits option.splits)
  have yes: "truthy (returned (recursive_match glob office_host ''C:''
                                 [''Program Files'', ''KeePass*'']))"
    by code_simp
  have no: "\<not> truthy (returned (recursive_match glob office_host ''C:''
                            [''Program Files'', ''1Password'']))"
    by code_simp
  from pattern_matches_existing_path [OF wf, of glob "[''Program Files'', ''KeePass*'']"] yes
  have a: "matches_existing_path glob office_host ''C:'' [''Program Files'', ''KeePass*'']"
    by blast
  from pattern_matches_existing_path [OF wf, of glob "[''Program Files'', ''1Password'']"] no
  have b: "\<not> matches_existing_path glob office_host ''C:'' [''Program Files'', ''1Password'']"
    by blast
  from yes a no b show ?thesis by (intro conjI)
qed

subsection \<open>A run that detects nothing\<close>

text \<open>The reports of the two detectors all name a product.\<close>

lemma highlight_products_loop:
  "Highlight m \<in> set (products_loop fnmatch connection pm) \<Longrightarrow>
     \<exists>name. m = ''Password manager installed: '' @ name"
proof (induction fnmatch connection pm rule: products_loop.induct)
  case (1 fnmatch connection)
  then show ?case by simp
next
  case (2 fnmatch connection name product rest)
  show ?case
  proof (cases "Highlight m \<in> set (try_paths fnmatch connection name (paths product))")
    case True
    then have "count_list (try_paths fnmatch connection name (paths product)) (Highlight m) \<noteq> 0"
      by (simp add: count_list_0_iff)
    with count_try_paths(2) [of m name fnmatch connection "paths product"]
    have "m = ''Password manager installed: '' @ name" by blast
    then show ?thesis by blast
  next
    case False
    with "2.prems" have "Highlight m \<in> set (products_loop fnmatch connection rest)"
      by simp
    then show ?thesis by (rule "2.IH")
  qed
qed

lemma highlight_entries_loop:
  "Highlight m \<in> set (entries_loop pm fs) \<Longrightarrow>
     \<exists>name. m = ''Password manager RUNNING: '' @ name"
  unfolding mem_entries_loop mem_running_loop by blast

lemma highlight_detect_running_processes:
  "Highlight m \<in> set (detect_running_processes connection pm) \<Longrightarrow>
     \<exists>name. m = ''Password manager RUNNING: '' @ name"
  using highlight_entries_loop [of m pm]
  by (cases "conn connection ''IPC$'' [CHR 0x5C, CHR ''*'']")
     (auto simp: detect_running_processes_def)

text \<open>
  Claim C4 says that a run that detects nothing emits one notice saying so. The notice
  exists in \<^verbatim>\<open>dump_results\<close>, which emits it for an empty result, but \<^verbatim>\<open>on_login\<close> never
  calls \<^verbatim>\<open>dump_results\<close>: no run of \<^verbatim>\<open>on_login\<close> emits the notice, whatever the matcher and
  the session. On a machine where every listing is empty the run consists of three
  information lines and its listing requests, and ends without any notice. No line is
  emitted for an absent product either.
\<close>

theorem no_notice_when_nothing_is_detected:
  "Highlight ''No password managers detected.'' \<notin> set (on_login fnmatch connection)
   \<and> on_login glob bare_host =
       [Info ''Analyzing target: 10.0.0.9'',
        Info ''Detecting running processes on 10.0.0.9 by enumerating pipes...'',
        ListPath ''IPC$'' [CHR 0x5C, CHR ''*''],
        Info ''Checking for known password manager file paths on 10.0.0.9...'',
        ListPath ''C$'' ''/*'', ListPath ''C$'' ''/*'', ListPath ''C$'' ''/*'',
        ListPath ''C$'' ''/*'', ListPath ''C$'' ''/*'', ListPath ''C$'' ''/*'',
        ListPath ''C$'' ''/*'', ListPath ''C$'' ''/*'', ListPath ''C$'' ''/*'',
        ListPath ''C$'' ''/*'', ListPath ''C$'' ''/*'', ListPath ''C$'' ''/*'',
        ListPath ''C$'' ''/*'']
   \<and> dump_results [] = [Highlight ''No password managers detected.'']"
proof (intro conjI)
  show "Highlight ''No password managers detected.'' \<notin> set (on_login fnmatch connection)"
  proof
    assume "Highlight ''No password managers detected.'' \<in> set (on_login fnmatch connection)"
    then have "Highlight ''No password managers detected.''
          \<in> set (detect_running_processes connection password_managers)
        \<or> Highlight ''No password managers detected.''
          \<in> set (products_loop fnmatch connection password_managers)"
      by (simp add: on_login_def detect_password_managers_def)
    then show False
    proof
      assume "Highlight ''No password managers detected.''
          \<in> set (detect_running_processes connection password_managers)"
      from highlight_detect_running_processes [OF this] show False by simp
    next
      assume "Highlight ''No password managers detected.''
          \<in> set (products_loop fnmatch connection password_managers)"
      from highlight_products_loop [OF this] show False by simp
    qed
  qed
  show "on_login glob bare_host =
       [Info ''Analyzing target: 10.0.0.9'',
        Info ''Detecting running processes on 10.0.0.9 by enumerating pipes...'',
        ListPath ''IPC$'' [CHR 0x5C, CHR ''*''],
        Info ''Checking for known password manager file paths on 10.0.0.9...'',
        ListPath ''C$'' ''/*'', ListPath ''C$'' ''/*'', ListPath ''C$'' ''/*'',
        ListPath ''C$'' ''/*'', ListPath ''C$'' ''/*'', ListPath ''C$'' ''/*'',
        ListPath ''C$'' ''/*'', ListPath ''C$'' ''/*'', ListPath ''C$'' ''/*'',
        ListPath ''C$'' ''/*'', ListPath ''C$'' ''/*'', ListPath ''C$'' ''/*'',
        ListPath ''C$'' ''/*'']"
    by code_simp
  show "dump_results [] = [Highlight ''No password managers detected.'']"
    by (simp add: dump_results_def)
qed

end
